theory Spec2Isabelle
  imports Main
begin

section \<open>The ordered map of jimschubert/ordered-map\<close>

text \<open>
  The Go package keeps two structures for one collection: \<open>items\<close>, a built-in map from
  keys to pointers to \<open>KeyValuePair\<close> objects, and \<open>order\<close>, a doubly linked list whose
  elements hold the same pointers. A pair points back at its list element. The pointers
  are shared, so a write through one of them is seen through the other; the embedding
  therefore has an explicit heap of pairs, and every operation takes the map together
  with the heap and returns both.
\<close>

subsection \<open>Pointers, pairs and the heap\<close>

text \<open>
  A reference is the address of a heap object. \<open>KeyValuePair\<close> is the struct of the
  source: the key, the value and the pointer to the list element that holds the pair.
\<close>

type_synonym ref = nat

record ('k, 'v) KeyValuePair =
  Key :: 'k
  Value :: 'v
  element :: ref

text \<open>
  The heap holds the \<open>KeyValuePair\<close> objects. \<open>cells\<close> gives the object at an address
  and \<open>brk\<close> is the first address that has not been handed out: allocation takes
  \<open>brk\<close> and moves it up, so a new object never shares its address with an older one.
  What lies at or above \<open>brk\<close> is memory no pointer of the program refers to.
\<close>

record ('k, 'v) heap =
  cells :: "ref \<Rightarrow> ('k, 'v) KeyValuePair"
  brk :: ref

subsection \<open>The sequence primitive\<close>

text \<open>
  Modelled from the spec: the package \<open>internal/list\<close> (the generic doubly linked list
  behind \<open>order\<close>) is not among the sources. The spec gives its contract: front, back,
  insertion at the back returning a position, removal of a position, moving a position to
  the front, to the back, after or before a mark position, the length, and the step from
  a position to the next one or to none. The model is the sequence of the elements, each
  a position handle with the value it holds; \<open>fresh\<close> is the next handle to hand out.
  An operation given a position that is not in the list leaves the list as it is, and a
  move of a position relative to itself does too.
\<close>

record 'a List =
  elems :: "(ref \<times> 'a) list"
  fresh :: ref

definition list_New :: "'a List" where
  "list_New = \<lparr>elems = [], fresh = 0\<rparr>"

definition list_Init :: "'a List \<Rightarrow> 'a List" where
  "list_Init l = l\<lparr>elems := []\<rparr>"

definition list_Len :: "'a List \<Rightarrow> nat" where
  "list_Len l = length (elems l)"

definition list_Front :: "'a List \<Rightarrow> ref option" where
  "list_Front l = (case elems l of [] \<Rightarrow> None | e # _ \<Rightarrow> Some (fst e))"

fun last_handle :: "(ref \<times> 'a) list \<Rightarrow> ref option" where
  "last_handle [] = None"
| "last_handle [e] = Some (fst e)"
| "last_handle (e # es) = last_handle es"

definition list_Back :: "'a List \<Rightarrow> ref option" where
  "list_Back l = last_handle (elems l)"

definition list_PushBack :: "'a \<Rightarrow> 'a List \<Rightarrow> ref \<times> 'a List" where
  "list_PushBack v l =
     (fresh l, l\<lparr>elems := elems l @ [(fresh l, v)], fresh := Suc (fresh l)\<rparr>)"

definition detach :: "ref \<Rightarrow> (ref \<times> 'a) list \<Rightarrow> (ref \<times> 'a) list" where
  "detach p es = filter (\<lambda>e. fst e \<noteq> p) es"

definition list_Remove :: "ref \<Rightarrow> 'a List \<Rightarrow> 'a List" where
  "list_Remove p l = l\<lparr>elems := detach p (elems l)\<rparr>"

text \<open>The value held at a position, and the position after it.\<close>

definition elem_Value :: "'a List \<Rightarrow> ref \<Rightarrow> 'a option" where
  "elem_Value l p = map_of (elems l) p"

fun next_after :: "ref \<Rightarrow> (ref \<times> 'a) list \<Rightarrow> ref option" where
  "next_after p [] = None"
| "next_after p [e] = None"
| "next_after p (e # e' # es) =
     (if fst e = p then Some (fst e') else next_after p (e' # es))"

definition elem_Next :: "'a List \<Rightarrow> ref \<Rightarrow> ref option" where
  "elem_Next l p = next_after p (elems l)"

fun insert_after :: "ref \<Rightarrow> (ref \<times> 'a) \<Rightarrow> (ref \<times> 'a) list \<Rightarrow> (ref \<times> 'a) list" where
  "insert_after mark x [] = []"
| "insert_after mark x (e # es) =
     (if fst e = mark then e # x # es else e # insert_after mark x es)"

fun insert_before :: "ref \<Rightarrow> (ref \<times> 'a) \<Rightarrow> (ref \<times> 'a) list \<Rightarrow> (ref \<times> 'a) list" where
  "insert_before mark x [] = []"
| "insert_before mark x (e # es) =
     (if fst e = mark then x # e # es else e # insert_before mark x es)"

definition list_MoveToFront :: "ref \<Rightarrow> 'a List \<Rightarrow> 'a List" where
  "list_MoveToFront p l =
     (case elem_Value l p of
        None \<Rightarrow> l
      | Some v \<Rightarrow>
          if list_Front l = Some p then l
          else l\<lparr>elems := (p, v) # detach p (elems l)\<rparr>)"

definition list_MoveToBack :: "ref \<Rightarrow> 'a List \<Rightarrow> 'a List" where
  "list_MoveToBack p l =
     (case elem_Value l p of
        None \<Rightarrow> l
      | Some v \<Rightarrow>
          if list_Back l = Some p then l
          else l\<lparr>elems := detach p (elems l) @ [(p, v)]\<rparr>)"

definition list_MoveAfter :: "ref \<Rightarrow> ref \<Rightarrow> 'a List \<Rightarrow> 'a List" where
  "list_MoveAfter p mark l =
     (case elem_Value l p of
        None \<Rightarrow> l
      | Some v \<Rightarrow>
          if p = mark \<or> elem_Value l mark = None then l
          else l\<lparr>elems := insert_after mark (p, v) (detach p (elems l))\<rparr>)"

definition list_MoveBefore :: "ref \<Rightarrow> ref \<Rightarrow> 'a List \<Rightarrow> 'a List" where
  "list_MoveBefore p mark l =
     (case elem_Value l p of
        None \<Rightarrow> l
      | Some v \<Rightarrow>
          if p = mark \<or> elem_Value l mark = None then l
          else l\<lparr>elems := insert_before mark (p, v) (detach p (elems l))\<rparr>)"

subsection \<open>The map and its errors\<close>

text \<open>
  \<open>OrderedMap\<close> has the two fields of the source. Both hold pointers to pairs, so
  their values are references, and the type of the stored values shows in the heap only.
  The two error types of the source are the two constructors of \<open>error\<close>; a Go
  \<open>error\<close> result is an \<open>error option\<close>, \<open>None\<close> for \<open>nil\<close>.
\<close>

record 'k OrderedMap =
  items :: "'k \<rightharpoonup> ref"
  order :: "ref List"

datatype ('k, 'v) error =
    KeyNotFoundError 'k
  | DuplicateKeyValueError 'k 'v

definition keyNotFound :: "'k \<Rightarrow> ('k, 'v) error" where
  "keyNotFound key = KeyNotFoundError key"

definition duplicateValue :: "'k \<Rightarrow> 'v \<Rightarrow> ('k, 'v) error" where
  "duplicateValue key val = DuplicateKeyValueError key val"

type_synonym ('k, 'v) state = "'k OrderedMap \<times> ('k, 'v) heap"

definition Init :: "'k OrderedMap \<Rightarrow> 'k OrderedMap" where
  "Init m = m\<lparr>items := Map.empty, order := list_Init (order m)\<rparr>"

definition New :: "'k OrderedMap" where
  "New = Init \<lparr>items = Map.empty, order = list_New\<rparr>"

text \<open>
  \<open>insertKeyValuePair\<close> allocates the pair, pushes its address at the back of the list,
  stores the address under the key and records the list element in the pair. It returns
  the address of the pair.
\<close>

definition insertKeyValuePair ::
  "'k \<Rightarrow> 'v \<Rightarrow> ('k, 'v) state \<Rightarrow> ref \<times> ('k, 'v) state" where
  "insertKeyValuePair key val s =
     (case s of (m, h) \<Rightarrow>
        let pair = brk h;
            (el, l) = list_PushBack pair (order m)
        in (pair,
            (m\<lparr>items := (items m)(key \<mapsto> pair), order := l\<rparr>,
             h\<lparr>cells := (cells h)(pair := \<lparr>Key = key, Value = val, element = el\<rparr>),
               brk := Suc (brk h)\<rparr>)))"

definition Set :: "'k \<Rightarrow> 'v \<Rightarrow> ('k, 'v) state \<Rightarrow> ('k, 'v) state" where
  "Set key val s =
     (case s of (m, h) \<Rightarrow>
        case items m key of
          Some existing \<Rightarrow>
            (m, h\<lparr>cells := (cells h)(existing := (cells h existing)\<lparr>Value := val\<rparr>)\<rparr>)
        | None \<Rightarrow> snd (insertKeyValuePair key val s))"

definition Get :: "'k \<Rightarrow> ('k, 'v) state \<Rightarrow> 'v option \<times> bool" where
  "Get key s =
     (case s of (m, h) \<Rightarrow>
        case items m key of
          Some existing \<Rightarrow> (Some (Value (cells h existing)), True)
        | None \<Rightarrow> (None, False))"

definition Remove :: "'k \<Rightarrow> ('k, 'v) state \<Rightarrow> (ref option \<times> bool) \<times> ('k, 'v) state" where
  "Remove key s =
     (case s of (m, h) \<Rightarrow>
        case items m key of
          Some kvp \<Rightarrow>
            ((Some kvp, True),
             (m\<lparr>items := (items m)(key := None),
                order := list_Remove (element (cells h kvp)) (order m)\<rparr>, h))
        | None \<Rightarrow> ((None, False), s))"

definition First :: "'k OrderedMap \<Rightarrow> ref option" where
  "First m =
     (case list_Front (order m) of
        None \<Rightarrow> None
      | Some front \<Rightarrow> elem_Value (order m) front)"

definition Last :: "'k OrderedMap \<Rightarrow> ref option" where
  "Last m =
     (case list_Back (order m) of
        None \<Rightarrow> None
      | Some back \<Rightarrow> elem_Value (order m) back)"

text \<open>
  The move operations look the key up (and the mark), and hand the list elements of the
  pairs to the list. A missing key is reported and nothing is touched.
\<close>

definition MoveToFront ::
  "'k \<Rightarrow> ('k, 'v) state \<Rightarrow> ('k, 'v) error option \<times> ('k, 'v) state" where
  "MoveToFront key s =
     (case s of (m, h) \<Rightarrow>
        case items m key of
          Some el \<Rightarrow>
            (None, (m\<lparr>order := list_MoveToFront (element (cells h el)) (order m)\<rparr>, h))
        | None \<Rightarrow> (Some (keyNotFound key), s))"

definition MoveToBack ::
  "'k \<Rightarrow> ('k, 'v) state \<Rightarrow> ('k, 'v) error option \<times> ('k, 'v) state" where
  "MoveToBack key s =
     (case s of (m, h) \<Rightarrow>
        case items m key of
          Some el \<Rightarrow>
            (None, (m\<lparr>order := list_MoveToBack (element (cells h el)) (order m)\<rparr>, h))
        | None \<Rightarrow> (Some (keyNotFound key), s))"

definition MoveAfter ::
  "'k \<Rightarrow> 'k \<Rightarrow> ('k, 'v) state \<Rightarrow> ('k, 'v) error option \<times> ('k, 'v) state" where
  "MoveAfter key after s =
     (case s of (m, h) \<Rightarrow>
        case items m key of
          Some el \<Rightarrow>
            (case items m after of
               Some mark \<Rightarrow>
                 (None,
                  (m\<lparr>order := list_MoveAfter (element (cells h el))
                                 (element (cells h mark)) (order m)\<rparr>, h))
             | None \<Rightarrow> (Some (keyNotFound after), s))
        | None \<Rightarrow> (Some (keyNotFound key), s))"

definition MoveBefore ::
  "'k \<Rightarrow> 'k \<Rightarrow> ('k, 'v) state \<Rightarrow> ('k, 'v) error option \<times> ('k, 'v) state" where
  "MoveBefore key before s =
     (case s of (m, h) \<Rightarrow>
        case items m key of
          Some el \<Rightarrow>
            (case items m before of
               Some mark \<Rightarrow>
                 (None,
                  (m\<lparr>order := list_MoveBefore (element (cells h el))
                                 (element (cells h mark)) (order m)\<rparr>, h))
             | None \<Rightarrow> (Some (keyNotFound before), s))
        | None \<Rightarrow> (Some (keyNotFound key), s))"

text \<open>
  The insert operations look the mark up first, then refuse a key that is stored
  already, then refuse a key equal to the mark; only then is the pair created at the
  back and moved next to the mark. When the mark is missing the source builds the error
  from \<open>key\<close>, and so does the model.
\<close>

definition InsertAfter ::
  "'k \<Rightarrow> 'v \<Rightarrow> 'k \<Rightarrow> ('k, 'v) state \<Rightarrow> ('k, 'v) error option \<times> ('k, 'v) state" where
  "InsertAfter key val after s =
     (case s of (m, h) \<Rightarrow>
        case items m after of
          Some mark \<Rightarrow>
            (case items m key of
               Some ex \<Rightarrow>
                 (Some (duplicateValue (Key (cells h ex)) (Value (cells h ex))), s)
             | None \<Rightarrow>
                 if key = after
                 then (Some (duplicateValue (Key (cells h mark)) (Value (cells h mark))), s)
                 else
                   (case insertKeyValuePair key val s of
                      (newElement, (m', h')) \<Rightarrow>
                        (None,
                         (m'\<lparr>order := list_MoveAfter (element (cells h' newElement))
                                         (element (cells h' mark)) (order m')\<rparr>, h'))))
        | None \<Rightarrow> (Some (keyNotFound key), s))"

definition InsertBefore ::
  "'k \<Rightarrow> 'v \<Rightarrow> 'k \<Rightarrow> ('k, 'v) state \<Rightarrow> ('k, 'v) error option \<times> ('k, 'v) state" where
  "InsertBefore key val before s =
     (case s of (m, h) \<Rightarrow>
        case items m before of
          Some mark \<Rightarrow>
            (case items m key of
               Some ex \<Rightarrow>
                 (Some (duplicateValue (Key (cells h ex)) (Value (cells h ex))), s)
             | None \<Rightarrow>
                 if key = before
                 then (Some (duplicateValue (Key (cells h mark)) (Value (cells h mark))), s)
                 else
                   (case insertKeyValuePair key val s of
                      (newElement, (m', h')) \<Rightarrow>
                        (None,
                         (m'\<lparr>order := list_MoveBefore (element (cells h' newElement))
                                          (element (cells h' mark)) (order m')\<rparr>, h'))))
        | None \<Rightarrow> (Some (keyNotFound key), s))"

subsection \<open>The iterator\<close>

text \<open>
  An iterator holds the map it walks and a position, \<open>None\<close> for the nil pointer. The
  source reads the element's value and its successor through the pointer; the model
  reads them from the list of the map the iterator holds, which is the map as it was
  when the iterator was made: the walk is one with no mutation in between.
\<close>

record 'k Iterator =
  orderedMap :: "'k OrderedMap"
  pos :: "ref option"

definition Iterator :: "'k OrderedMap \<Rightarrow> 'k Iterator" where
  "Iterator m = \<lparr>orderedMap = m, pos = list_Front (order m)\<rparr>"

definition Next :: "'k Iterator \<Rightarrow> ref option \<times> 'k Iterator" where
  "Next i =
     (case pos i of
        None \<Rightarrow> (None, i)
      | Some p \<Rightarrow>
          (case elem_Value (order (orderedMap i)) p of
             None \<Rightarrow> (None, i)
           | Some v \<Rightarrow> (Some v, i\<lparr>pos := elem_Next (order (orderedMap i)) p\<rparr>)))"

text \<open>
  \<open>Keys\<close> loops on \<open>Next\<close> until it returns nil. Nothing in the loop bounds the number
  of rounds, so the loop is a partial function: \<open>None\<close> is a walk that never ends.
\<close>

partial_function (option) Keys_loop ::
  "('k, 'v) heap \<Rightarrow> 'k Iterator \<Rightarrow> 'k list \<Rightarrow> 'k list option" where
  "Keys_loop h it keys =
     (case Next it of
        (None, _) \<Rightarrow> Some keys
      | (Some kvp, it') \<Rightarrow> Keys_loop h it' (keys @ [Key (cells h kvp)]))"

definition Keys :: "('k, 'v) state \<Rightarrow> 'k list option" where
  "Keys s = (case s of (m, h) \<Rightarrow> Keys_loop h (Iterator m) [])"

subsection \<open>Equality\<close>

text \<open>
  \<open>Equal\<close> takes two pointers to maps, either of which may be nil (\<open>None\<close>). After
  the test that exactly one of them is nil, the source reads \<open>x.order\<close> and
  \<open>y.order\<close>: through a nil pointer that is Go's run-time panic, which the model
  returns as a value. The walk is a loop on the two iterators with no bound, so it is a
  partial function, \<open>None\<close> for a walk that never ends. The keys are compared with
  \<open>!=\<close> and the values with \<open>reflect.DeepEqual\<close>; both are equality in HOL, which
  is what they are on values built from numbers, strings, structs and slices of these.
\<close>

datatype panic = NilDereference

partial_function (option) Equal_loop ::
  "('k, 'v) heap \<Rightarrow> 'k Iterator \<Rightarrow> 'k Iterator \<Rightarrow> bool option" where
  "Equal_loop h xIt yIt =
     (case Next xIt of (xCurrent, xIt') \<Rightarrow>
      case Next yIt of (yCurrent, yIt') \<Rightarrow>
        (case xCurrent of
           None \<Rightarrow> (case yCurrent of None \<Rightarrow> Some True | Some y \<Rightarrow> Some False)
         | Some x \<Rightarrow>
             (case yCurrent of
                None \<Rightarrow> Some False
              | Some y \<Rightarrow>
                  if Key (cells h x) \<noteq> Key (cells h y) then Some False
                  else if Value (cells h x) \<noteq> Value (cells h y) then Some False
                  else Equal_loop h xIt' yIt')))"

definition Equal ::
  "('k, 'v) heap \<Rightarrow> 'k OrderedMap option \<Rightarrow> 'k OrderedMap option \<Rightarrow> (panic + bool) option" where
  "Equal h x y =
     (if (x = None \<and> y \<noteq> None) \<or> (y = None \<and> x \<noteq> None) then Some (Inr False)
      else
        case x of
          None \<Rightarrow> Some (Inl NilDereference)
        | Some xm \<Rightarrow>
            (case y of
               None \<Rightarrow> Some (Inl NilDereference)
             | Some ym \<Rightarrow>
                 if list_Len (order xm) \<noteq> list_Len (order ym) then Some (Inr False)
                 else map_option Inr (Equal_loop h (Iterator xm) (Iterator ym))))"

subsection \<open>The scenario of the insert test\<close>

text \<open>
  The map of the package's insert tests: four calls of \<open>Set\<close> on a new map, in a heap
  \<open>h\<close> of string keys and string values.
\<close>

definition scenario :: "(string, string) heap \<Rightarrow> (string, string) state" where
  "scenario h =
     Set ''fifth'' ''5th'' (Set ''fourth'' ''4th''
       (Set ''second'' ''2nd'' (Set ''first'' ''1st'' (New, h))))"

subsection \<open>The invariant\<close>

text \<open>
  The two structures describe one collection. In a well-formed state the handles of the
  list are all different and older than \<open>fresh\<close>; every list element holds the address
  of an allocated pair whose \<open>element\<close> field is that element and whose key is mapped
  by \<open>items\<close> to that address; and the keys of \<open>items\<close> are exactly the keys of the
  pairs in the list.
\<close>

definition invariant :: "('k, 'v) state \<Rightarrow> bool" where
  "invariant s =
     (case s of (m, h) \<Rightarrow>
        distinct (map fst (elems (order m)))
        \<and> (\<forall>e \<in> set (elems (order m)).
              fst e < fresh (order m) \<and> snd e < brk h
              \<and> element (cells h (snd e)) = fst e
              \<and> items m (Key (cells h (snd e))) = Some (snd e))
        \<and> dom (items m) = (\<lambda>e. Key (cells h (snd e))) ` set (elems (order m)))"

subsection \<open>Sequences of operations, successive calls, and a concrete heap\<close>

text \<open>
  The mutating operations of the public interface as data, so that a property can be
  stated for every sequence of calls. \<open>perform\<close> makes one call and drops what it
  returns; \<open>run\<close> makes the calls of a list in order.
\<close>

datatype ('k, 'v) operation =
    OpSet 'k 'v
  | OpRemove 'k
  | OpInsertAfter 'k 'v 'k
  | OpInsertBefore 'k 'v 'k
  | OpMoveToFront 'k
  | OpMoveToBack 'k
  | OpMoveAfter 'k 'k
  | OpMoveBefore 'k 'k

fun perform :: "('k, 'v) operation \<Rightarrow> ('k, 'v) state \<Rightarrow> ('k, 'v) state" where
  "perform (OpSet k v) s = Set k v s"
| "perform (OpRemove k) s = snd (Remove k s)"
| "perform (OpInsertAfter k v mark) s = snd (InsertAfter k v mark s)"
| "perform (OpInsertBefore k v mark) s = snd (InsertBefore k v mark s)"
| "perform (OpMoveToFront k) s = snd (MoveToFront k s)"
| "perform (OpMoveToBack k) s = snd (MoveToBack k s)"
| "perform (OpMoveAfter k mark) s = snd (MoveAfter k mark s)"
| "perform (OpMoveBefore k mark) s = snd (MoveBefore k mark s)"

fun run :: "('k, 'v) operation list \<Rightarrow> ('k, 'v) state \<Rightarrow> ('k, 'v) state" where
  "run [] s = s"
| "run (x # xs) s = run xs (perform x s)"

text \<open>The results of \<open>n\<close> successive calls of \<open>Next\<close> on one iterator.\<close>

fun Nexts :: "nat \<Rightarrow> 'k Iterator \<Rightarrow> ref option list" where
  "Nexts 0 i = []"
| "Nexts (Suc n) i = (case Next i of (r, i') \<Rightarrow> r # Nexts n i')"

text \<open>
  The pairs of a map as the walk of the order reads them: key and value of the pair each
  list element points to, front to back.
\<close>

definition entries :: "('k, 'v) state \<Rightarrow> ('k \<times> 'v) list" where
  "entries s =
     (case s of (m, h) \<Rightarrow>
        map (\<lambda>e. (Key (cells h (snd e)), Value (cells h (snd e)))) (elems (order m)))"

text \<open>A heap of string pairs in which nothing has been allocated, for concrete runs.\<close>

definition heap0 :: "(string, string) heap" where
  "heap0 = \<lparr>cells = (\<lambda>_. \<lparr>Key = [], Value = [], element = 0\<rparr>), brk = 0\<rparr>"

section \<open>Properties\<close>

lemmas list_defs = list_New_def list_Init_def list_Len_def list_Front_def list_Back_def
  list_PushBack_def detach_def list_Remove_def elem_Value_def elem_Next_def
  list_MoveToFront_def list_MoveToBack_def list_MoveAfter_def list_MoveBefore_def

lemmas map_defs = Init_def New_def insertKeyValuePair_def Set_def keyNotFound_def
  duplicateValue_def Let_def

subsection \<open>The sequence primitive\<close>

lemma set_detach: "set (detach p es) = {e \<in> set es. fst e \<noteq> p}"
  by (auto simp: detach_def)

lemma distinct_detach: "distinct (map fst es) \<Longrightarrow> distinct (map fst (detach p es))"
  by (simp add: detach_def distinct_map_filter)

lemma detach_absent: "p \<notin> fst ` set es \<Longrightarrow> detach p es = es"
  by (induction es) (auto simp: detach_def)

lemma fst_set_detach: "fst ` set (detach p es) = fst ` set es - {p}"
  by (auto simp: detach_def)

lemma set_insert_after:
  "mark \<in> fst ` set es \<Longrightarrow> set (insert_after mark x es) = insert x (set es)"
  by (induction es) auto

lemma set_insert_before:
  "mark \<in> fst ` set es \<Longrightarrow> set (insert_before mark x es) = insert x (set es)"
  by (induction es) auto

lemma set_insert_after_subset: "set (insert_after mark x es) \<subseteq> insert x (set es)"
  by (induction es) auto

lemma set_insert_before_subset: "set (insert_before mark x es) \<subseteq> insert x (set es)"
  by (induction es) auto

lemma fst_insert_after_subset:
  "fst ` set (insert_after mark x es) \<subseteq> insert (fst x) (fst ` set es)"
  using set_insert_after_subset[of mark x es] by (metis image_insert image_mono)

lemma fst_insert_before_subset:
  "fst ` set (insert_before mark x es) \<subseteq> insert (fst x) (fst ` set es)"
  using set_insert_before_subset[of mark x es] by (metis image_insert image_mono)

lemma distinct_insert_after:
  "distinct (map fst es) \<Longrightarrow> fst x \<notin> fst ` set es \<Longrightarrow>
   distinct (map fst (insert_after mark x es))"
proof (induction es)
  case Nil
  then show ?case by simp
next
  case (Cons e es)
  have "fst e \<notin> fst ` set (insert_after mark x es)"
    using fst_insert_after_subset[of mark x es] Cons.prems by auto
  with Cons show ?case by auto
qed

lemma distinct_insert_before:
  "distinct (map fst es) \<Longrightarrow> fst x \<notin> fst ` set es \<Longrightarrow>
   distinct (map fst (insert_before mark x es))"
proof (induction es)
  case Nil
  then show ?case by simp
next
  case (Cons e es)
  have "fst e \<notin> fst ` set (insert_before mark x es)"
    using fst_insert_before_subset[of mark x es] Cons.prems by auto
  with Cons show ?case by auto
qed

lemma last_handle_eq: "last_handle es = (if es = [] then None else Some (fst (last es)))"
  by (induction es rule: last_handle.induct) auto

lemma next_after_distinct:
  "distinct (map fst (xs @ e # ys)) \<Longrightarrow>
   next_after (fst e) (xs @ e # ys) = (case ys of [] \<Rightarrow> None | e' # _ \<Rightarrow> Some (fst e'))"
proof (induction xs)
  case Nil
  then show ?case by (cases ys) auto
next
  case (Cons x xs)
  then show ?case by (cases xs) auto
qed

lemma map_of_distinct_mid:
  "distinct (map fst (xs @ e # ys)) \<Longrightarrow> map_of (xs @ e # ys) (fst e) = Some (snd e)"
  by (rule map_of_is_SomeI) simp_all

subsection \<open>Walking the order\<close>

text \<open>
  With distinct handles, \<open>Next\<close> at an element returns the pair it holds and steps to
  the following element, so the loop of \<open>Keys\<close> ends and returns the keys of the pairs
  in the order of the list.
\<close>

lemma Next_end: "pos it = None \<Longrightarrow> Next it = (None, it)"
  by (simp add: Next_def)

lemma Next_at:
  assumes "distinct (map fst (elems (order (orderedMap it))))"
    and "elems (order (orderedMap it)) = xs @ e # ys"
    and "pos it = Some (fst e)"
  shows "Next it = (Some (snd e),
           it\<lparr>pos := (case ys of [] \<Rightarrow> None | e' # _ \<Rightarrow> Some (fst e'))\<rparr>)"
proof -
  have d: "distinct (map fst (xs @ e # ys))" using assms(1,2) by simp
  have v: "elem_Value (order (orderedMap it)) (fst e) = Some (snd e)"
    unfolding elem_Value_def assms(2) by (rule map_of_distinct_mid[OF d])
  have n: "elem_Next (order (orderedMap it)) (fst e)
             = (case ys of [] \<Rightarrow> None | e' # _ \<Rightarrow> Some (fst e'))"
    unfolding elem_Next_def assms(2) by (rule next_after_distinct[OF d])
  show ?thesis by (simp add: Next_def assms(3) v n)
qed

lemma Keys_loop_walk:
  assumes "distinct (map fst (elems (order (orderedMap it))))"
    and "elems (order (orderedMap it)) = xs @ ys"
    and "pos it = (case ys of [] \<Rightarrow> None | e # _ \<Rightarrow> Some (fst e))"
  shows "Keys_loop h it keys = Some (keys @ map (\<lambda>e. Key (cells h (snd e))) ys)"
  using assms
proof (induction ys arbitrary: xs it keys)
  case Nil
  then have "Next it = (None, it)" by (simp add: Next_end)
  then show ?case by (subst Keys_loop.simps) simp
next
  case (Cons e ys)
  let ?it = "it\<lparr>pos := (case ys of [] \<Rightarrow> None | e' # _ \<Rightarrow> Some (fst e'))\<rparr>"
  have nx: "Next it = (Some (snd e), ?it)"
    using Cons.prems by (intro Next_at[where xs = xs]) simp_all
  have "Keys_loop h ?it (keys @ [Key (cells h (snd e))])
          = Some ((keys @ [Key (cells h (snd e))]) @ map (\<lambda>e. Key (cells h (snd e))) ys)"
    using Cons.prems by (intro Cons.IH[where xs = "xs @ [e]"]) simp_all
  then show ?case by (subst Keys_loop.simps) (simp add: nx)
qed

lemma Keys_walk:
  "distinct (map fst (elems (order m))) \<Longrightarrow>
   Keys (m, h) = Some (map (\<lambda>e. Key (cells h (snd e))) (elems (order m)))"
  unfolding Keys_def
  using Keys_loop_walk[of "Iterator m" "[]" "elems (order m)" h "[]"]
  by (simp add: Iterator_def list_Front_def split: list.splits)

subsection \<open>What the invariant gives, and that it is kept\<close>

lemma invariant_distinct: "invariant (m, h) \<Longrightarrow> distinct (map fst (elems (order m)))"
  by (simp add: invariant_def)

lemma invariant_elem:
  assumes "invariant (m, h)" and "e \<in> set (elems (order m))"
  shows "fst e < fresh (order m)" and "snd e < brk h"
    and "element (cells h (snd e)) = fst e"
    and "items m (Key (cells h (snd e))) = Some (snd e)"
  using assms by (auto simp: invariant_def)

lemma invariant_dom:
  "invariant (m, h) \<Longrightarrow> dom (items m) = (\<lambda>e. Key (cells h (snd e))) ` set (elems (order m))"
  by (simp add: invariant_def)

lemma invariant_items:
  assumes "invariant (m, h)" and "items m k = Some a"
  shows "(element (cells h a), a) \<in> set (elems (order m))" and "Key (cells h a) = k"
proof -
  from assms(2) have "k \<in> dom (items m)" by auto
  with invariant_dom[OF assms(1)] obtain e
    where e: "e \<in> set (elems (order m))" and k: "k = Key (cells h (snd e))" by auto
  from invariant_elem(4)[OF assms(1) e] k assms(2) have a: "a = snd e" by simp
  from invariant_elem(3)[OF assms(1) e] a have "e = (element (cells h a), a)"
    by (cases e) simp
  with e show "(element (cells h a), a) \<in> set (elems (order m))" by simp
  from k a show "Key (cells h a) = k" by simp
qed

lemma invariant_key_inj:
  assumes "invariant (m, h)"
    and "e \<in> set (elems (order m))" and "e' \<in> set (elems (order m))"
    and "Key (cells h (snd e)) = Key (cells h (snd e'))"
  shows "e = e'"
proof -
  have "Some (snd e) = items m (Key (cells h (snd e)))"
    using invariant_elem(4)[OF assms(1,2)] by (rule sym)
  also have "\<dots> = items m (Key (cells h (snd e')))"
    by (rule arg_cong[OF assms(4)])
  also have "\<dots> = Some (snd e')"
    by (rule invariant_elem(4)[OF assms(1,3)])
  finally have s: "snd e = snd e'" by (rule option.inject[THEN iffD1])
  have "fst e = element (cells h (snd e))"
    using invariant_elem(3)[OF assms(1,2)] by (rule sym)
  also have "\<dots> = element (cells h (snd e'))"
    by (rule arg_cong[OF s])
  also have "\<dots> = fst e'"
    by (rule invariant_elem(3)[OF assms(1,3)])
  finally show ?thesis using s by (rule prod_eqI)
qed

lemma invariant_distinct_keys:
  assumes "invariant (m, h)"
  shows "distinct (map (\<lambda>e. Key (cells h (snd e))) (elems (order m)))"
proof -
  have "distinct (elems (order m))"
    using invariant_distinct[OF assms] by (simp add: distinct_map)
  moreover have "inj_on (\<lambda>e. Key (cells h (snd e))) (set (elems (order m)))"
    by (rule inj_onI) (rule invariant_key_inj[OF assms])
  ultimately show ?thesis by (simp add: distinct_map)
qed

lemma invariant_New: "invariant (New, h)"
  by (simp add: invariant_def New_def Init_def list_Init_def list_New_def)

lemma invariant_reorder:
  assumes "invariant (m, h)" and "set es = set (elems (order m))" and "distinct (map fst es)"
  shows "invariant (m\<lparr>order := (order m)\<lparr>elems := es\<rparr>\<rparr>, h)"
  using assms by (simp add: invariant_def)

lemma store_Value_Key:
  "Key (((cells h)(a := (cells h a)\<lparr>Value := v\<rparr>)) x) = Key (cells h x)"
  by simp

lemma store_Value_element:
  "element (((cells h)(a := (cells h a)\<lparr>Value := v\<rparr>)) x) = element (cells h x)"
  by simp

lemma invariant_Set_existing:
  assumes "invariant (m, h)"
  shows "invariant (m, h\<lparr>cells := (cells h)(a := (cells h a)\<lparr>Value := v\<rparr>)\<rparr>)"
  using assms
  by (simp add: invariant_def store_Value_Key store_Value_element del: fun_upd_apply)

lemma invariant_insertKeyValuePair:
  assumes "invariant (m, h)" and "items m key = None"
  shows "invariant (snd (insertKeyValuePair key val (m, h)))"
proof -
  have old: "\<And>e. e \<in> set (elems (order m)) \<Longrightarrow>
      fst e \<noteq> fresh (order m) \<and> snd e \<noteq> brk h \<and> Key (cells h (snd e)) \<noteq> key"
    using invariant_elem[OF assms(1)] assms(2) by fastforce
  show ?thesis
    using assms(1) old
    by (auto simp: invariant_def insertKeyValuePair_def list_PushBack_def Let_def
        less_Suc_eq image_iff)
qed

lemma set_detach_distinct:
  "distinct (map fst es) \<Longrightarrow> (p, v) \<in> set es \<Longrightarrow> set (detach p es) = set es - {(p, v)}"
  by (auto simp: detach_def dest: eq_key_imp_eq_value)

lemma detach_Cons_same: "distinct (map fst ((p, v) # es)) \<Longrightarrow> detach p ((p, v) # es) = es"
  by (simp add: detach_def filter_id_conv) force

lemma detach_snoc_same: "distinct (map fst (es @ [(p, v)])) \<Longrightarrow> detach p (es @ [(p, v)]) = es"
  by (simp add: detach_def filter_id_conv) force

lemma elems_MoveToFront:
  assumes "distinct (map fst (elems l))" and "map_of (elems l) p = Some v"
  shows "elems (list_MoveToFront p l) = (p, v) # detach p (elems l)"
proof (cases "list_Front l = Some p")
  case True
  then obtain e es where es: "elems l = e # es" and e: "fst e = p"
    by (auto simp: list_Front_def split: list.splits)
  with assms(2) have "e = (p, v)" by (cases e) simp
  with es assms(1) have "(p, v) # detach p (elems l) = elems l"
    using detach_Cons_same[of p v es] by simp
  with True assms(2) show ?thesis by (simp add: list_MoveToFront_def elem_Value_def)
next
  case False
  with assms(2) show ?thesis by (simp add: list_MoveToFront_def elem_Value_def)
qed

lemma elems_MoveToBack:
  assumes "distinct (map fst (elems l))" and "map_of (elems l) p = Some v"
  shows "elems (list_MoveToBack p l) = detach p (elems l) @ [(p, v)]"
proof (cases "list_Back l = Some p")
  case True
  then have ne: "elems l \<noteq> []" and lp: "fst (last (elems l)) = p"
    by (auto simp: list_Back_def last_handle_eq split: if_splits)
  then obtain es e where es: "elems l = es @ [e]" and e: "fst e = p"
    by (metis append_butlast_last_id)
  have "(p, snd e) \<in> set (elems l)" using es e by auto
  moreover have "(p, v) \<in> set (elems l)"
    using assms by (simp add: map_of_eq_Some_iff)
  ultimately have "snd e = v"
    by (rule eq_key_imp_eq_value[OF assms(1)])
  with e have "e = (p, v)" by (simp add: prod_eq_iff)
  with es assms(1) have "detach p (elems l) @ [(p, v)] = elems l"
    using detach_snoc_same[of es p v] by simp
  with True assms(2) show ?thesis by (simp add: list_MoveToBack_def elem_Value_def)
next
  case False
  with assms(2) show ?thesis by (simp add: list_MoveToBack_def elem_Value_def)
qed

lemma fresh_moves [simp]:
  "fresh (list_MoveToFront p l) = fresh l"
  "fresh (list_MoveToBack p l) = fresh l"
  "fresh (list_MoveAfter p mark l) = fresh l"
  "fresh (list_MoveBefore p mark l) = fresh l"
  "fresh (list_Remove p l) = fresh l"
  by (simp_all add: list_MoveToFront_def list_MoveToBack_def list_MoveAfter_def
      list_MoveBefore_def list_Remove_def split: option.splits)

lemma elems_MoveAfter:
  assumes "map_of (elems l) p = Some v" and "map_of (elems l) mark \<noteq> None" and "p \<noteq> mark"
  shows "elems (list_MoveAfter p mark l) = insert_after mark (p, v) (detach p (elems l))"
  using assms by (auto simp: list_MoveAfter_def elem_Value_def)

lemma elems_MoveBefore:
  assumes "map_of (elems l) p = Some v" and "map_of (elems l) mark \<noteq> None" and "p \<noteq> mark"
  shows "elems (list_MoveBefore p mark l) = insert_before mark (p, v) (detach p (elems l))"
  using assms by (auto simp: list_MoveBefore_def elem_Value_def)

lemma list_MoveAfter_self [simp]: "list_MoveAfter p p l = l"
  by (simp add: list_MoveAfter_def split: option.splits)

lemma list_MoveBefore_self [simp]: "list_MoveBefore p p l = l"
  by (simp add: list_MoveBefore_def split: option.splits)

lemma reorder_front:
  assumes "distinct (map fst es)" and "map_of es p = Some v"
  shows "set ((p, v) # detach p es) = set es"
    and "distinct (map fst ((p, v) # detach p es))"
proof -
  have in_es: "(p, v) \<in> set es" using assms by (simp add: map_of_eq_Some_iff)
  show "set ((p, v) # detach p es) = set es"
    using set_detach_distinct[OF assms(1) in_es] in_es by auto
  show "distinct (map fst ((p, v) # detach p es))"
    using distinct_detach[OF assms(1), of p] by (simp add: fst_set_detach)
qed

lemma reorder_back:
  assumes "distinct (map fst es)" and "map_of es p = Some v"
  shows "set (detach p es @ [(p, v)]) = set es"
    and "distinct (map fst (detach p es @ [(p, v)]))"
proof -
  have in_es: "(p, v) \<in> set es" using assms by (simp add: map_of_eq_Some_iff)
  show "set (detach p es @ [(p, v)]) = set es"
    using set_detach_distinct[OF assms(1) in_es] in_es by auto
  show "distinct (map fst (detach p es @ [(p, v)]))"
    using distinct_detach[OF assms(1), of p] by (simp add: fst_set_detach)
qed

lemma mark_in_detach:
  assumes "map_of es mark \<noteq> None" and "p \<noteq> mark"
  shows "mark \<in> fst ` set (detach p es)"
proof -
  from assms(1) have "mark \<in> fst ` set es" by (simp add: map_of_eq_None_iff)
  with assms(2) show ?thesis by (simp add: fst_set_detach)
qed

lemma reorder_after:
  assumes "distinct (map fst es)" and "map_of es p = Some v"
    and "map_of es mark \<noteq> None" and "p \<noteq> mark"
  shows "set (insert_after mark (p, v) (detach p es)) = set es"
    and "distinct (map fst (insert_after mark (p, v) (detach p es)))"
proof -
  have in_es: "(p, v) \<in> set es" using assms by (simp add: map_of_eq_Some_iff)
  show "set (insert_after mark (p, v) (detach p es)) = set es"
    using set_insert_after[OF mark_in_detach[OF assms(3,4)], of "(p, v)"]
      set_detach_distinct[OF assms(1) in_es] in_es by auto
  show "distinct (map fst (insert_after mark (p, v) (detach p es)))"
    by (rule distinct_insert_after[OF distinct_detach[OF assms(1)]])
       (simp add: fst_set_detach)
qed

lemma reorder_before:
  assumes "distinct (map fst es)" and "map_of es p = Some v"
    and "map_of es mark \<noteq> None" and "p \<noteq> mark"
  shows "set (insert_before mark (p, v) (detach p es)) = set es"
    and "distinct (map fst (insert_before mark (p, v) (detach p es)))"
proof -
  have in_es: "(p, v) \<in> set es" using assms by (simp add: map_of_eq_Some_iff)
  show "set (insert_before mark (p, v) (detach p es)) = set es"
    using set_insert_before[OF mark_in_detach[OF assms(3,4)], of "(p, v)"]
      set_detach_distinct[OF assms(1) in_es] in_es by auto
  show "distinct (map fst (insert_before mark (p, v) (detach p es)))"
    by (rule distinct_insert_before[OF distinct_detach[OF assms(1)]])
       (simp add: fst_set_detach)
qed

lemma invariant_order:
  assumes "invariant (m, h)" and "set (elems l) = set (elems (order m))"
    and "distinct (map fst (elems l))" and "fresh l = fresh (order m)"
  shows "invariant (m\<lparr>order := l\<rparr>, h)"
  using assms by (simp add: invariant_def)

lemma invariant_handle:
  assumes "invariant (m, h)" and "items m k = Some a"
  shows "map_of (elems (order m)) (element (cells h a)) = Some a"
  using invariant_items(1)[OF assms] invariant_distinct[OF assms(1)]
  by (simp add: map_of_eq_Some_iff)

lemma invariant_MoveToFront:
  assumes "invariant s"
  shows "invariant (snd (MoveToFront k s))"
proof (cases s)
  case (Pair m h)
  show ?thesis
  proof (cases "items m k")
    case None
    with Pair assms show ?thesis by (simp add: MoveToFront_def)
  next
    case (Some a)
    note d = invariant_distinct[OF assms[unfolded Pair]]
    note v = invariant_handle[OF assms[unfolded Pair] Some]
    have "invariant (m\<lparr>order := list_MoveToFront (element (cells h a)) (order m)\<rparr>, h)"
      using assms[unfolded Pair] reorder_front[OF d v]
      by (intro invariant_order) (simp_all add: elems_MoveToFront[OF d v])
    with Pair Some show ?thesis by (simp add: MoveToFront_def)
  qed
qed

lemma invariant_MoveToBack:
  assumes "invariant s"
  shows "invariant (snd (MoveToBack k s))"
proof (cases s)
  case (Pair m h)
  show ?thesis
  proof (cases "items m k")
    case None
    with Pair assms show ?thesis by (simp add: MoveToBack_def)
  next
    case (Some a)
    note d = invariant_distinct[OF assms[unfolded Pair]]
    note v = invariant_handle[OF assms[unfolded Pair] Some]
    have "invariant (m\<lparr>order := list_MoveToBack (element (cells h a)) (order m)\<rparr>, h)"
      using assms[unfolded Pair] reorder_back[OF d v]
      by (intro invariant_order) (simp_all add: elems_MoveToBack[OF d v])
    with Pair Some show ?thesis by (simp add: MoveToBack_def)
  qed
qed

lemma invariant_list_MoveAfter:
  assumes "invariant (m, h)" and "map_of (elems (order m)) p = Some v"
    and "map_of (elems (order m)) mark = Some w"
  shows "invariant (m\<lparr>order := list_MoveAfter p mark (order m)\<rparr>, h)"
proof (cases "p = mark")
  case True
  with assms(1) show ?thesis by simp
next
  case False
  note d = invariant_distinct[OF assms(1)]
  have mk: "map_of (elems (order m)) mark \<noteq> None" using assms(3) by simp
  show ?thesis
    using assms(1) reorder_after[OF d assms(2) mk False]
    by (intro invariant_order) (simp_all add: elems_MoveAfter[OF assms(2) mk False])
qed

lemma invariant_list_MoveBefore:
  assumes "invariant (m, h)" and "map_of (elems (order m)) p = Some v"
    and "map_of (elems (order m)) mark = Some w"
  shows "invariant (m\<lparr>order := list_MoveBefore p mark (order m)\<rparr>, h)"
proof (cases "p = mark")
  case True
  with assms(1) show ?thesis by simp
next
  case False
  note d = invariant_distinct[OF assms(1)]
  have mk: "map_of (elems (order m)) mark \<noteq> None" using assms(3) by simp
  show ?thesis
    using assms(1) reorder_before[OF d assms(2) mk False]
    by (intro invariant_order) (simp_all add: elems_MoveBefore[OF assms(2) mk False])
qed

lemma invariant_MoveAfter:
  assumes "invariant s"
  shows "invariant (snd (MoveAfter k after s))"
proof (cases s)
  case (Pair m h)
  note inv = assms[unfolded Pair]
  show ?thesis
  proof (cases "items m k")
    case None
    with Pair assms show ?thesis by (simp add: MoveAfter_def)
  next
    case a: (Some a)
    show ?thesis
    proof (cases "items m after")
      case None
      with Pair a assms show ?thesis by (simp add: MoveAfter_def)
    next
      case b: (Some b)
      from invariant_list_MoveAfter[OF inv invariant_handle[OF inv a] invariant_handle[OF inv b]]
      show ?thesis using Pair a b by (simp add: MoveAfter_def)
    qed
  qed
qed

lemma invariant_MoveBefore:
  assumes "invariant s"
  shows "invariant (snd (MoveBefore k before s))"
proof (cases s)
  case (Pair m h)
  note inv = assms[unfolded Pair]
  show ?thesis
  proof (cases "items m k")
    case None
    with Pair assms show ?thesis by (simp add: MoveBefore_def)
  next
    case a: (Some a)
    show ?thesis
    proof (cases "items m before")
      case None
      with Pair a assms show ?thesis by (simp add: MoveBefore_def)
    next
      case b: (Some b)
      from invariant_list_MoveBefore[OF inv invariant_handle[OF inv a] invariant_handle[OF inv b]]
      show ?thesis using Pair a b by (simp add: MoveBefore_def)
    qed
  qed
qed

lemma invariant_Set:
  assumes "invariant s"
  shows "invariant (Set k v s)"
proof (cases s)
  case (Pair m h)
  note inv = assms[unfolded Pair]
  show ?thesis
  proof (cases "items m k")
    case None
    from invariant_insertKeyValuePair[OF inv None, of v]
    show ?thesis using Pair None by (simp add: Set_def)
  next
    case (Some a)
    from invariant_Set_existing[OF inv, of a v]
    show ?thesis using Pair Some by (simp add: Set_def)
  qed
qed

lemma insertKeyValuePair_eq:
  "insertKeyValuePair key val (m, h) =
     (brk h,
      (m\<lparr>items := (items m)(key \<mapsto> brk h),
         order := (order m)\<lparr>elems := elems (order m) @ [(fresh (order m), brk h)],
                             fresh := Suc (fresh (order m))\<rparr>\<rparr>,
       h\<lparr>cells := (cells h)(brk h := \<lparr>Key = key, Value = val, element = fresh (order m)\<rparr>),
         brk := Suc (brk h)\<rparr>))"
  by (simp add: insertKeyValuePair_def list_PushBack_def Let_def)

lemma invariant_InsertAfter:
  assumes "invariant s"
  shows "invariant (snd (InsertAfter k v after s))"
proof (cases s)
  case (Pair m h)
  note inv = assms[unfolded Pair]
  show ?thesis
  proof (cases "items m after")
    case None
    with Pair assms show ?thesis by (simp add: InsertAfter_def)
  next
    case b: (Some b)
    show ?thesis
    proof (cases "items m k")
      case (Some a)
      with Pair b assms show ?thesis by (simp add: InsertAfter_def)
    next
      case None
      show ?thesis
      proof (cases "k = after")
        case True
        with Pair b None assms show ?thesis by (simp add: InsertAfter_def)
      next
        case False
        obtain n m' h' where ins: "insertKeyValuePair k v (m, h) = (n, (m', h'))"
          by (metis prod_cases3)
        from invariant_insertKeyValuePair[OF inv None, of v] ins
        have inv': "invariant (m', h')" by simp
        from ins have n: "items m' k = Some n" and b': "items m' after = Some b"
          using False b by (auto simp: insertKeyValuePair_eq)
        from invariant_list_MoveAfter[OF inv' invariant_handle[OF inv' n]
            invariant_handle[OF inv' b']]
        show ?thesis using Pair b None False ins by (simp add: InsertAfter_def)
      qed
    qed
  qed
qed

lemma invariant_InsertBefore:
  assumes "invariant s"
  shows "invariant (snd (InsertBefore k v before s))"
proof (cases s)
  case (Pair m h)
  note inv = assms[unfolded Pair]
  show ?thesis
  proof (cases "items m before")
    case None
    with Pair assms show ?thesis by (simp add: InsertBefore_def)
  next
    case b: (Some b)
    show ?thesis
    proof (cases "items m k")
      case (Some a)
      with Pair b assms show ?thesis by (simp add: InsertBefore_def)
    next
      case None
      show ?thesis
      proof (cases "k = before")
        case True
        with Pair b None assms show ?thesis by (simp add: InsertBefore_def)
      next
        case False
        obtain n m' h' where ins: "insertKeyValuePair k v (m, h) = (n, (m', h'))"
          by (metis prod_cases3)
        from invariant_insertKeyValuePair[OF inv None, of v] ins
        have inv': "invariant (m', h')" by simp
        from ins have n: "items m' k = Some n" and b': "items m' before = Some b"
          using False b by (auto simp: insertKeyValuePair_eq)
        from invariant_list_MoveBefore[OF inv' invariant_handle[OF inv' n]
            invariant_handle[OF inv' b']]
        show ?thesis using Pair b None False ins by (simp add: InsertBefore_def)
      qed
    qed
  qed
qed

lemma Remove_absent: "items m k = None \<Longrightarrow> Remove k (m, h) = ((None, False), (m, h))"
  by (simp add: Remove_def)

lemma Remove_present:
  "items m k = Some a \<Longrightarrow>
   Remove k (m, h) =
     ((Some a, True),
      (m\<lparr>items := (items m)(k := None),
         order := list_Remove (element (cells h a)) (order m)\<rparr>, h))"
  by (simp add: Remove_def)

lemma invariant_Remove:
  assumes "invariant s"
  shows "invariant (snd (Remove k s))"
proof (cases s)
  case (Pair m h)
  note inv = assms[unfolded Pair]
  show ?thesis
  proof (cases "items m k")
    case None
    with Pair assms show ?thesis by (simp add: Remove_absent)
  next
    case (Some a)
    let ?p = "element (cells h a)"
    let ?es = "elems (order m)"
    note d = invariant_distinct[OF inv]
    have pa: "(?p, a) \<in> set ?es" and ka: "Key (cells h a) = k"
      using invariant_items[OF inv Some] by simp_all
    have set': "set (detach ?p ?es) = set ?es - {(?p, a)}"
      by (rule set_detach_distinct[OF d pa])
    have other: "Key (cells h (snd e)) \<noteq> k" if "e \<in> set ?es" "e \<noteq> (?p, a)" for e
    proof
      assume "Key (cells h (snd e)) = k"
      with ka have "Key (cells h (snd e)) = Key (cells h (snd (?p, a)))" by simp
      from invariant_key_inj[OF inv that(1) pa this] that(2) show False by simp
    qed
    have dom': "dom ((items m)(k := None))
                 = (\<lambda>e. Key (cells h (snd e))) ` (set ?es - {(?p, a)})"
    proof (rule set_eqI)
      fix x
      show "x \<in> dom ((items m)(k := None))
              \<longleftrightarrow> x \<in> (\<lambda>e. Key (cells h (snd e))) ` (set ?es - {(?p, a)})"
      proof
        assume "x \<in> dom ((items m)(k := None))"
        then have xk: "x \<noteq> k" and "x \<in> dom (items m)" by (auto split: if_splits)
        with invariant_dom[OF inv] obtain e where e: "e \<in> set ?es"
          and x: "x = Key (cells h (snd e))" by auto
        with xk ka have "e \<noteq> (?p, a)" by auto
        with e x show "x \<in> (\<lambda>e. Key (cells h (snd e))) ` (set ?es - {(?p, a)})" by auto
      next
        assume "x \<in> (\<lambda>e. Key (cells h (snd e))) ` (set ?es - {(?p, a)})"
        then obtain e where e: "e \<in> set ?es" "e \<noteq> (?p, a)"
          and x: "x = Key (cells h (snd e))" by auto
        from other[OF e] x have "x \<noteq> k" by simp
        moreover from invariant_elem(4)[OF inv e(1)] x have "x \<in> dom (items m)" by auto
        ultimately show "x \<in> dom ((items m)(k := None))" by simp
      qed
    qed
    have "invariant (m\<lparr>items := (items m)(k := None),
                        order := list_Remove ?p (order m)\<rparr>, h)"
      unfolding invariant_def
      using distinct_detach[OF d, of ?p] invariant_elem[OF inv] other dom'
      by (simp add: list_Remove_def set')
    with Pair Some show ?thesis by (simp add: Remove_present)
  qed
qed

lemma invariant_perform: "invariant s \<Longrightarrow> invariant (perform x s)"
  by (cases x)
     (simp_all add: invariant_Set invariant_Remove invariant_InsertAfter
        invariant_InsertBefore invariant_MoveToFront invariant_MoveToBack
        invariant_MoveAfter invariant_MoveBefore)

lemma invariant_run: "invariant s \<Longrightarrow> invariant (run xs s)"
  by (induction xs arbitrary: s) (simp_all add: invariant_perform)

lemma run_append: "run (xs @ ys) s = run ys (run xs s)"
  by (induction xs arbitrary: s) simp_all

subsection \<open>Insertion relative to a missing mark\<close>

text \<open>
  C1. The claim: when the mark key of \<open>InsertAfter\<close> or \<open>InsertBefore\<close> is absent, the
  call fails with a \<open>KeyNotFound\<close> error that identifies the absent mark, and the map is
  unchanged. On the new map, inserting \<open>third\<close> relative to the absent mark
  \<open>alphabet\<close> does leave the map unchanged, but the error names \<open>third\<close>, the key
  to insert, and not \<open>alphabet\<close>, the key that was not found. (\<open>MoveAfter\<close> and
  \<open>MoveBefore\<close> report the mark in the same situation.)
\<close>

theorem InsertAfter_missing_mark_names_key:
  "InsertAfter ''third'' ''3rd'' ''alphabet'' (New, h)
     = (Some (KeyNotFoundError ''third''), (New, h))
   \<and> InsertBefore ''third'' ''3rd'' ''alphabet'' (New, h)
     = (Some (KeyNotFoundError ''third''), (New, h))
   \<and> fst (InsertAfter ''third'' ''3rd'' ''alphabet'' (New, h))
     \<noteq> Some (KeyNotFoundError ''alphabet'')
   \<and> fst (InsertBefore ''third'' ''3rd'' ''alphabet'' (New, h))
     \<noteq> Some (KeyNotFoundError ''alphabet'')"
  by (simp add: InsertAfter_def InsertBefore_def map_defs)

subsection \<open>Equality of absent maps\<close>

text \<open>
  C2. The claim: \<open>Equal\<close> returns true when both maps are absent, and false when exactly
  one is. With both pointers nil the first test of the source does not fire, and the
  next statement reads \<open>x.order\<close> through the nil pointer: the call panics instead
  of returning true.
\<close>

theorem Equal_nil_nil_panics:
  "Equal h None None = Some (Inl NilDereference)
   \<and> Equal h None None \<noteq> Some (Inr True)"
  by (simp add: Equal_def)

text \<open>The other half of the claim holds: one absent map and one present map are unequal.\<close>

lemma Equal_one_nil:
  "Equal h None (Some y) = Some (Inr False)"
  "Equal h (Some x) None = Some (Inr False)"
  by (simp_all add: Equal_def)

subsection \<open>The insert scenario\<close>

text \<open>
  C5. Starting from an empty map, after \<open>Set\<close> of first, second, fourth and fifth, the
  call \<open>InsertAfter("third", "3rd", "second")\<close> returns no error and the keys, front to
  back, are first, second, third, fourth, fifth.
\<close>

theorem scenario_InsertAfter_third:
  "fst (InsertAfter ''third'' ''3rd'' ''second'' (scenario h)) = None
   \<and> Keys (snd (InsertAfter ''third'' ''3rd'' ''second'' (scenario h)))
     = Some [''first'', ''second'', ''third'', ''fourth'', ''fifth'']"
  by (simp add: scenario_def InsertAfter_def map_defs list_defs Keys_def Keys_loop.simps
      Next_def Iterator_def)

end
